theory Spec2Isabelle
  imports Complex_Main
begin

section \<open>IEEE 754 binary64 rounding\<close>

text \<open>
  The notebook \<^verbatim>\<open>detection.ipynb\<close> computes with Python floats and numpy's float64, both
  IEEE 754 binary64. A finite float is modelled as the real number it denotes; every
  arithmetic operation of the source computes the exact real result and rounds it to the
  nearest binary64 value, ties to even (\<open>round64\<close>). Binary64 has a 53-bit significand,
  normal exponents from \<open>-1022\<close> to \<open>1023\<close> and subnormal numbers that are multiples of
  \<open>2^-1074\<close>.
\<close>

text \<open>
  \<open>2^k\<close> for an integer \<open>k\<close>.
\<close>

definition pow2 :: "int \<Rightarrow> real" where
  "pow2 k = 2 powr of_int k"

text \<open>
  The binary exponent used to round \<open>x\<close>: \<open>\<lfloor>log2 \<bar>x\<bar>\<rfloor>\<close>, and \<open>-1022\<close> in the subnormal
  range.
\<close>

definition expo64 :: "real \<Rightarrow> int" where
  "expo64 x = max (- 1022) \<lfloor>log 2 \<bar>x\<bar>\<rfloor>"

text \<open>
  The spacing of binary64 values around \<open>x\<close>.
\<close>

definition ulp64 :: "real \<Rightarrow> real" where
  "ulp64 x = pow2 (expo64 x - 52)"

text \<open>
  Rounding a real to the nearest integer, ties to the even one.
\<close>

definition rne :: "real \<Rightarrow> int" where
  "rne r =
     (let f = \<lfloor>r\<rfloor>
      in if r - of_int f < 1 / 2 then f
         else if 1 / 2 < r - of_int f then f + 1
         else if even f then f else f + 1)"

text \<open>
  The nearest multiple of the spacing: the binary64 value nearest to \<open>x\<close>, before the
  check for overflow.
\<close>

definition round64 :: "real \<Rightarrow> real" where
  "round64 x = (if x = 0 then 0 else of_int (rne (x / ulp64 x)) * ulp64 x)"

section \<open>Float values and operations\<close>

text \<open>
  A float64 value is a finite real or one of the special values \<^verbatim>\<open>inf\<close>, \<^verbatim>\<open>-inf\<close>,
  \<^verbatim>\<open>nan\<close>. A call of a notebook function returns \<open>Inr\<close> of its value or \<open>Inl\<close> of the
  exception it raises.
\<close>

datatype npfloat = Fin real | PosInf | NegInf | NaN

text \<open>
  \<open>OverflowError\<close> is what Python's \<^verbatim>\<open>**\<close> on floats raises when the result is out of
  range; \<open>DomainError\<close> is the error that the specification asks of the threshold solver.
\<close>

datatype error = OverflowError | DomainError

text \<open>
  The float64 result of an operation whose exact result is \<open>x\<close>: an infinity when the
  rounded value is out of range. Subtraction and multiplication of floats overflow to an
  infinity in Python and in numpy; they do not raise.
\<close>

definition fl :: "real \<Rightarrow> npfloat" where
  "fl x =
     (let r = round64 x
      in if 2 ^ 1024 \<le> r then PosInf else if r \<le> - (2 ^ 1024) then NegInf else Fin r)"

text \<open>
  \<^verbatim>\<open>a - b\<close> on float64 values.
\<close>

fun np_sub :: "npfloat \<Rightarrow> npfloat \<Rightarrow> npfloat" where
  "np_sub (Fin x) (Fin y) = fl (x - y)"
| "np_sub (Fin x) PosInf = NegInf"
| "np_sub (Fin x) NegInf = PosInf"
| "np_sub PosInf (Fin y) = PosInf"
| "np_sub NegInf (Fin y) = NegInf"
| "np_sub PosInf NegInf = PosInf"
| "np_sub NegInf PosInf = NegInf"
| "np_sub _ _ = NaN"

text \<open>
  The infinity with the sign of \<open>s\<close>; \<^verbatim>\<open>0 * inf\<close> is \<^verbatim>\<open>nan\<close>.
\<close>

definition inf_of_sign :: "real \<Rightarrow> npfloat" where
  "inf_of_sign s = (if 0 < s then PosInf else if s < 0 then NegInf else NaN)"

text \<open>
  \<^verbatim>\<open>a * b\<close> on float64 values.
\<close>

fun np_mul :: "npfloat \<Rightarrow> npfloat \<Rightarrow> npfloat" where
  "np_mul (Fin x) (Fin y) = fl (x * y)"
| "np_mul (Fin x) PosInf = inf_of_sign x"
| "np_mul (Fin x) NegInf = inf_of_sign (- x)"
| "np_mul PosInf (Fin y) = inf_of_sign y"
| "np_mul NegInf (Fin y) = inf_of_sign (- y)"
| "np_mul PosInf PosInf = PosInf"
| "np_mul PosInf NegInf = NegInf"
| "np_mul NegInf PosInf = NegInf"
| "np_mul NegInf NegInf = PosInf"
| "np_mul _ _ = NaN"

text \<open>
  \<^verbatim>\<open>np.log10\<close>: \<^verbatim>\<open>-inf\<close> at zero and \<^verbatim>\<open>nan\<close> below it (numpy warns, it does not
  raise), \<^verbatim>\<open>inf\<close> at \<^verbatim>\<open>inf\<close>.
\<close>

definition np_log10 :: "npfloat \<Rightarrow> npfloat" where
  "np_log10 v =
     (case v of
        Fin x \<Rightarrow> (if 0 < x then fl (log 10 x) else if x = 0 then NegInf else NaN)
      | PosInf \<Rightarrow> PosInf
      | NegInf \<Rightarrow> NaN
      | NaN \<Rightarrow> NaN)"

text \<open>
  \<^verbatim>\<open>10**z\<close> for a Python float \<open>z\<close>: Python raises \<^verbatim>\<open>OverflowError\<close> when the result
  is out of range, and returns the rounded power (possibly zero) otherwise.
\<close>

definition py_pow10 :: "real \<Rightarrow> error + real" where
  "py_pow10 z =
     (let r = round64 (10 powr z)
      in if 2 ^ 1024 \<le> r then Inl OverflowError else Inr r)"

text \<open>
  \<^verbatim>\<open>a < b\<close> on float64 values: false when either is \<^verbatim>\<open>nan\<close>.
\<close>

fun np_less :: "npfloat \<Rightarrow> npfloat \<Rightarrow> bool" where
  "np_less (Fin x) (Fin y) = (x < y)"
| "np_less (Fin x) PosInf = True"
| "np_less NegInf (Fin y) = True"
| "np_less NegInf PosInf = True"
| "np_less _ _ = False"

text \<open>
  \<^verbatim>\<open>a <= b\<close> on float64 values: false when either is \<^verbatim>\<open>nan\<close>.
\<close>

fun np_le :: "npfloat \<Rightarrow> npfloat \<Rightarrow> bool" where
  "np_le NaN _ = False"
| "np_le _ NaN = False"
| "np_le a b = (a = b \<or> np_less a b)"

text \<open>
  A value that is a non-negative real or \<^verbatim>\<open>inf\<close>.
\<close>

definition np_nonneg :: "npfloat \<Rightarrow> bool" where
  "np_nonneg a = (case a of Fin v \<Rightarrow> 0 \<le> v | PosInf \<Rightarrow> True | _ \<Rightarrow> False)"

section \<open>The distribution functions of scipy\<close>

text \<open>
  The routines of scipy are not part of the notebook. Their values on finite arguments
  inside their domain are taken to be the exact mathematical value rounded to binary64;
  the theorems on the evaluator that need more than this take the routine as a parameter.
\<close>

text \<open>
  The regularized lower incomplete gamma function \<open>P(a, x)\<close> at a positive integer shape
  \<open>a\<close> and \<open>x \<ge> 0\<close>, where the integral has the closed form
  \<open>1 - exp (-x) * (\<Sum>k<a. x^k / k!)\<close>. The notebook uses integer shapes only.
\<close>

definition gammainc :: "nat \<Rightarrow> real \<Rightarrow> real" where
  "gammainc a x = 1 - exp (- x) * (\<Sum>k<a. x ^ k / fact k)"

text \<open>
  \<^verbatim>\<open>scipy.special.gammaincinv(a, y)\<close>: the \<open>x\<close> with \<open>P(a, x) = y\<close>, rounded. Outside
  \<open>[0, 1]\<close> scipy records a domain error in its own error state and returns \<^verbatim>\<open>nan\<close>; it
  returns \<open>0\<close> at \<open>y = 0\<close> and \<^verbatim>\<open>inf\<close> at \<open>y = 1\<close>.
\<close>

definition gammaincinv :: "nat \<Rightarrow> npfloat \<Rightarrow> npfloat" where
  "gammaincinv a v =
     (case v of
        Fin y \<Rightarrow>
          (if y < 0 \<or> 1 < y then NaN
           else if y = 0 then Fin 0
           else if y = 1 then PosInf
           else fl (THE x. 0 < x \<and> gammainc a x = y))
      | _ \<Rightarrow> NaN)"

text \<open>
  The Poisson probability of \<open>j\<close> at mean \<open>mu\<close>.
\<close>

definition poisson_pmf :: "real \<Rightarrow> nat \<Rightarrow> real" where
  "poisson_pmf mu j = exp (- mu) * mu ^ j / fact j"

text \<open>
  The distribution function of the chi-squared distribution with an even number \<open>df\<close> of
  degrees of freedom: \<open>P(df/2, x/2)\<close> on the support, \<open>0\<close> below it.
\<close>

definition chi2_cdf :: "real \<Rightarrow> nat \<Rightarrow> real" where
  "chi2_cdf x df = (if x \<le> 0 then 0 else gammainc (df div 2) (x / 2))"

text \<open>
  The distribution function of the non-central chi-squared distribution with an even
  \<open>df\<close>: the Poisson mixture of central chi-squared distribution functions, with weights
  of mean \<open>nc / 2\<close>.
\<close>

definition ncx2_cdf :: "real \<Rightarrow> nat \<Rightarrow> real \<Rightarrow> real" where
  "ncx2_cdf x df nc = (\<Sum>j. poisson_pmf (nc / 2) j * chi2_cdf x (df + 2 * j))"

text \<open>
  \<^verbatim>\<open>scipy.stats.ncx2.cdf(x, df, nc)\<close> as the rounded exact value on finite arguments. It is
  used at concrete inputs only, where the arguments are small.
\<close>

definition ncx2_cdf64 :: "npfloat \<Rightarrow> nat \<Rightarrow> npfloat \<Rightarrow> npfloat" where
  "ncx2_cdf64 x df nc =
     (case nc of
        Fin b \<Rightarrow>
          (if b < 0 then NaN
           else case x of
                  Fin a \<Rightarrow> fl (ncx2_cdf a df b)
                | PosInf \<Rightarrow> Fin 1
                | NegInf \<Rightarrow> Fin 0
                | NaN \<Rightarrow> NaN)
      | _ \<Rightarrow> NaN)"

section \<open>The two functions of the notebook\<close>

text \<open>
  \<^verbatim>\<open>return 10*np.log10(sp.special.gammaincinv(1, 1-false_positive_rate))\<close>.
  The argument is a Python float; the subtraction \<^verbatim>\<open>1-false_positive_rate\<close> rounds. The
  function has no check of its argument and no \<^verbatim>\<open>raise\<close>: every call returns.
\<close>

definition snr_threshold_given_false_positive_rate :: "real \<Rightarrow> error + npfloat" where
  "snr_threshold_given_false_positive_rate false_positive_rate =
     Inr (np_mul (Fin 10) (np_log10 (gammaincinv 1 (fl (1 - false_positive_rate)))))"

text \<open>
  The solver after the subtraction, as a function of the float \<^verbatim>\<open>1-false_positive_rate\<close>.
\<close>

definition threshold_of_complement :: "npfloat \<Rightarrow> error + npfloat" where
  "threshold_of_complement v = Inr (np_mul (Fin 10) (np_log10 (gammaincinv 1 v)))"

text \<open>
  \<^verbatim>\<open>power_conversion_factor = 1.0; if not isPeak: power_conversion_factor = 2.0\<close>, then
  \<^verbatim>\<open>return 1.0 - sp.stats.ncx2.cdf(2*(10**(threshold/10)), 2, power_conversion_factor*10**(snr/10))\<close>.
  The arguments \<^verbatim>\<open>threshold\<close> and \<^verbatim>\<open>snr\<close> are Python floats, \<^verbatim>\<open>isPeak\<close> is
  \<^verbatim>\<open>False\<close> when the caller leaves it out, and \<open>cdf\<close> stands for
  \<^verbatim>\<open>sp.stats.ncx2.cdf\<close>. Python evaluates the arguments of the call from left to right;
  each division and multiplication rounds, and each power may raise.
\<close>

definition true_positive_rate_given_snr_and_threshold ::
  "(npfloat \<Rightarrow> nat \<Rightarrow> npfloat \<Rightarrow> npfloat) \<Rightarrow> real \<Rightarrow> real \<Rightarrow> bool \<Rightarrow> error + npfloat" where
  "true_positive_rate_given_snr_and_threshold cdf threshold snr isPeak =
     (let power_conversion_factor = (if \<not> isPeak then 2 else 1)
      in case py_pow10 (round64 (threshold / 10)) of
           Inl e \<Rightarrow> Inl e
         | Inr a \<Rightarrow>
             (case py_pow10 (round64 (snr / 10)) of
                Inl e \<Rightarrow> Inl e
              | Inr b \<Rightarrow>
                  Inr (np_sub (Fin 1) (cdf (fl (2 * a)) 2 (fl (power_conversion_factor * b))))))"

text \<open>
  \<^verbatim>\<open>10**(z/10)\<close> is out of the float64 range.
\<close>

definition pow_overflows :: "real \<Rightarrow> bool" where
  "pow_overflows z = (2 ^ 1024 \<le> round64 (10 powr round64 (z / 10)))"

text \<open>
  The float \<^verbatim>\<open>2*(10**(threshold/10))\<close> handed to the distribution function.
\<close>

definition evaluator_point :: "real \<Rightarrow> npfloat" where
  "evaluator_point threshold = fl (2 * round64 (10 powr round64 (threshold / 10)))"

text \<open>
  The float \<^verbatim>\<open>power_conversion_factor*10**(snr/10)\<close> handed to the distribution function.
\<close>

definition evaluator_noncentrality :: "real \<Rightarrow> bool \<Rightarrow> npfloat" where
  "evaluator_noncentrality snr isPeak =
     fl ((if isPeak then 1 else 2) * round64 (10 powr round64 (snr / 10)))"


section \<open>Predicates on results\<close>

text \<open>
  A result lies within relative tolerance \<open>tol\<close> of an expected real when it is a
  returned finite value \<open>a\<close> with \<open>\<bar>a - expected\<bar> \<le> tol * \<bar>expected\<bar>\<close>.
\<close>

definition result_within :: "real \<Rightarrow> error + npfloat \<Rightarrow> real \<Rightarrow> bool" where
  "result_within tol r expected =
     (case r of Inr (Fin a) \<Rightarrow> \<bar>a - expected\<bar> \<le> tol * \<bar>expected\<bar> | _ \<Rightarrow> False)"

text \<open>
  Both calls return and the first value is less than the second.
\<close>

definition result_less :: "error + npfloat \<Rightarrow> error + npfloat \<Rightarrow> bool" where
  "result_less r1 r2 = (case (r1, r2) of (Inr a, Inr b) \<Rightarrow> np_less a b | _ \<Rightarrow> False)"

text \<open>
  Both calls return and the first value is at most the second.
\<close>

definition result_le :: "error + npfloat \<Rightarrow> error + npfloat \<Rightarrow> bool" where
  "result_le r1 r2 = (case (r1, r2) of (Inr a, Inr b) \<Rightarrow> np_le a b | _ \<Rightarrow> False)"




section \<open>Properties of the rounding\<close>

text \<open>
  Rounding is monotone, odd, exact on powers of two and on integers below \<open>2^53\<close>, and
  maps every real above \<open>1 - 2^-54\<close> and at most 1 to 1.
\<close>

lemma pow2_pos: "0 < pow2 k"
  by (simp add: pow2_def)

lemma pow2_add: "pow2 (j + k) = pow2 j * pow2 k"
  by (simp add: pow2_def powr_add)

lemma pow2_le: "pow2 j \<le> pow2 k \<longleftrightarrow> j \<le> k"
  by (simp add: pow2_def)

lemma pow2_less: "pow2 j < pow2 k \<longleftrightarrow> j < k"
  by (simp add: pow2_def)

lemma pow2_nat:
  assumes "0 \<le> k"
  shows "pow2 k = of_int (2 ^ nat k)"
proof -
  have "real_of_int k = real (nat k)"
    using assms by simp
  then have "(2::real) powr real_of_int k = 2 powr real (nat k)"
    by (simp only:)
  also have "\<dots> = 2 ^ nat k"
    by (rule powr_realpow) simp
  finally show ?thesis
    by (simp add: pow2_def)
qed

lemma pow2_numeral: "pow2 (numeral n) = 2 ^ numeral n"
  by (simp add: pow2_def)

lemma pow2_0: "pow2 0 = 1"
  by (simp add: pow2_def)

lemma pow2_neg_numeral: "pow2 (- numeral n) = 1 / 2 ^ numeral n"
  by (simp add: pow2_def powr_minus_divide)

lemma rne_cases: "rne r = \<lfloor>r\<rfloor> \<or> rne r = \<lfloor>r\<rfloor> + 1"
  by (simp add: rne_def Let_def)

lemma rne_of_int: "rne (of_int n) = n"
  by (simp add: rne_def)

lemma rne_lower: "of_int n \<le> r \<Longrightarrow> n \<le> rne r"
  using rne_cases [of r] by (auto simp add: le_floor_iff [symmetric])

lemma rne_upper:
  assumes "r \<le> of_int n"
  shows "rne r \<le> n"
proof (cases "r = of_int n")
  case True
  then show ?thesis by (simp add: rne_of_int)
next
  case False
  with assms have "r < of_int n" by simp
  then have "\<lfloor>r\<rfloor> < n" by (simp add: floor_less_iff)
  then show ?thesis using rne_cases [of r] by auto
qed

lemma rne_half_up:
  assumes "of_int n - 1 / 2 < r"
  shows "n \<le> rne r"
proof (cases "of_int n \<le> r")
  case True
  then show ?thesis by (rule rne_lower)
next
  case False
  then have "r < of_int n" by simp
  moreover have "of_int (n - 1) \<le> r" using assms by simp
  ultimately have f: "\<lfloor>r\<rfloor> = n - 1"
    by (simp add: floor_unique)
  then have "1 / 2 < r - of_int \<lfloor>r\<rfloor>"
    using assms by simp
  then show ?thesis
    using f by (simp add: rne_def)
qed

lemma rne_half_down:
  assumes "r < of_int n + 1 / 2"
  shows "rne r \<le> n"
proof (cases "r \<le> of_int n")
  case True
  then show ?thesis by (rule rne_upper)
next
  case False
  then have "of_int n \<le> r" by simp
  moreover have "r < of_int n + 1" using assms by simp
  ultimately have f: "\<lfloor>r\<rfloor> = n"
    by (simp add: floor_unique)
  then have "r - of_int \<lfloor>r\<rfloor> < 1 / 2"
    using assms by simp
  then show ?thesis
    using f by (simp add: rne_def)
qed

lemma rne_mono:
  assumes "r \<le> s"
  shows "rne r \<le> rne s"
proof (cases "\<lfloor>r\<rfloor> = \<lfloor>s\<rfloor>")
  case True
  then show ?thesis
    using assms by (auto simp add: rne_def Let_def)
next
  case False
  moreover have "\<lfloor>r\<rfloor> \<le> \<lfloor>s\<rfloor>" using assms by (rule floor_mono)
  ultimately have "\<lfloor>r\<rfloor> + 1 \<le> \<lfloor>s\<rfloor>" by simp
  moreover have "rne r \<le> \<lfloor>r\<rfloor> + 1" using rne_cases [of r] by auto
  moreover have "\<lfloor>s\<rfloor> \<le> rne s" using rne_cases [of s] by auto
  ultimately show ?thesis by simp
qed

lemma rne_minus: "rne (- r) = - rne r"
proof (cases "r = of_int \<lfloor>r\<rfloor>")
  case True
  then obtain n where "r = of_int n" ..
  then have "- r = of_int (- n)" by simp
  then show ?thesis
    using \<open>r = of_int n\<close> by (simp only: rne_of_int)
next
  case False
  have lo: "of_int \<lfloor>r\<rfloor> < r"
    by (metis False of_int_floor_le order_le_imp_less_or_eq)
  have hi: "r < of_int \<lfloor>r\<rfloor> + 1"
    by simp
  have f: "\<lfloor>- r\<rfloor> = - \<lfloor>r\<rfloor> - 1"
    using lo hi by (intro floor_unique) (simp only: of_int_diff of_int_minus of_int_1, linarith)+
  show ?thesis
    using lo hi by (auto simp add: rne_def Let_def f)
qed

lemma expo64_ge: "- 1022 \<le> expo64 x"
  by (simp add: expo64_def)

lemma abs_less_pow2_expo:
  assumes "x \<noteq> 0"
  shows "\<bar>x\<bar> < pow2 (expo64 x + 1)"
proof -
  have "log 2 \<bar>x\<bar> < of_int \<lfloor>log 2 \<bar>x\<bar>\<rfloor> + 1"
    by simp
  also have "\<dots> \<le> of_int (expo64 x + 1)"
    by (simp add: expo64_def)
  finally have "log 2 \<bar>x\<bar> < of_int (expo64 x + 1)" .
  then show ?thesis
    using assms by (simp add: pow2_def log_less_iff)
qed

lemma pow2_expo_le_abs:
  assumes "x \<noteq> 0" "- 1022 < expo64 x"
  shows "pow2 (expo64 x) \<le> \<bar>x\<bar>"
proof -
  have "expo64 x = \<lfloor>log 2 \<bar>x\<bar>\<rfloor>"
    using assms(2) by (simp add: expo64_def max_def split: if_splits)
  then have "of_int (expo64 x) \<le> log 2 \<bar>x\<bar>"
    by simp
  then show ?thesis
    using assms(1) by (simp add: pow2_def le_log_iff)
qed

lemma expo64_le:
  assumes "x \<noteq> 0" "\<bar>x\<bar> < pow2 (k + 1)" "- 1022 \<le> k"
  shows "expo64 x \<le> k"
proof -
  have "log 2 \<bar>x\<bar> < of_int (k + 1)"
    using assms(1,2) by (simp add: pow2_def log_less_iff)
  then have "\<lfloor>log 2 \<bar>x\<bar>\<rfloor> < k + 1"
    by (simp only: floor_less_iff)
  then show ?thesis
    using assms(3) by (simp add: expo64_def)
qed

lemma expo64_ge_of:
  assumes "pow2 k \<le> \<bar>x\<bar>"
  shows "k \<le> expo64 x"
proof -
  have "0 < \<bar>x\<bar>"
    using assms pow2_pos [of k] by linarith
  then have "of_int k \<le> log 2 \<bar>x\<bar>"
    using assms by (simp add: pow2_def le_log_iff)
  then have "k \<le> \<lfloor>log 2 \<bar>x\<bar>\<rfloor>"
    by (simp only: le_floor_iff)
  then show ?thesis
    by (simp add: expo64_def)
qed

lemma expo64_eq:
  assumes "pow2 k \<le> \<bar>x\<bar>" "\<bar>x\<bar> < pow2 (k + 1)" "- 1022 \<le> k"
  shows "expo64 x = k"
proof -
  have "x \<noteq> 0"
    using assms(1) pow2_pos [of k] by auto
  then show ?thesis
    using expo64_le [OF _ assms(2,3)] expo64_ge_of [OF assms(1)] by simp
qed

lemma ulp64_pos: "0 < ulp64 x"
  by (simp add: ulp64_def pow2_pos)

lemma round64_0: "round64 0 = 0"
  by (simp add: round64_def)

lemma round64_minus: "round64 (- x) = - round64 x"
  by (simp add: round64_def ulp64_def expo64_def rne_minus)

lemma round64_upper_int:
  assumes "x \<le> of_int n * ulp64 x"
  shows "round64 x \<le> of_int n * ulp64 x"
proof (cases "x = 0")
  case True
  then show ?thesis using assms by (simp add: round64_def)
next
  case False
  have "x / ulp64 x \<le> of_int n"
    using assms ulp64_pos [of x] by (simp add: field_simps)
  then have "rne (x / ulp64 x) \<le> n"
    by (rule rne_upper)
  then have "of_int (rne (x / ulp64 x)) * ulp64 x \<le> of_int n * ulp64 x"
    using ulp64_pos [of x] by simp
  then show ?thesis
    using False by (simp add: round64_def)
qed

lemma round64_lower_int:
  assumes "of_int n * ulp64 x \<le> x"
  shows "of_int n * ulp64 x \<le> round64 x"
proof (cases "x = 0")
  case True
  then show ?thesis using assms by (simp add: round64_def)
next
  case False
  have "of_int n \<le> x / ulp64 x"
    using assms ulp64_pos [of x] by (simp add: field_simps)
  then have "n \<le> rne (x / ulp64 x)"
    by (rule rne_lower)
  then have "of_int n * ulp64 x \<le> of_int (rne (x / ulp64 x)) * ulp64 x"
    using ulp64_pos [of x] by simp
  then show ?thesis
    using False by (simp add: round64_def)
qed

lemma round64_nonneg: "0 \<le> x \<Longrightarrow> 0 \<le> round64 x"
  using round64_lower_int [of 0 x] by simp

lemma round64_nonpos: "x \<le> 0 \<Longrightarrow> round64 x \<le> 0"
  using round64_upper_int [of x 0] by simp

lemma pow2_as_ulp_multiple:
  assumes "expo64 x - 52 \<le> k"
  shows "pow2 k = of_int (2 ^ nat (k - (expo64 x - 52))) * ulp64 x"
proof -
  have "pow2 k = pow2 ((k - (expo64 x - 52)) + (expo64 x - 52))"
    by simp
  also have "\<dots> = pow2 (k - (expo64 x - 52)) * pow2 (expo64 x - 52)"
    by (rule pow2_add)
  also have "pow2 (k - (expo64 x - 52)) = of_int (2 ^ nat (k - (expo64 x - 52)))"
    using assms by (intro pow2_nat) simp
  finally show ?thesis
    by (simp add: ulp64_def)
qed

lemma round64_le_pow2:
  assumes "x \<le> pow2 k" "- 1074 \<le> k"
  shows "round64 x \<le> pow2 k"
proof (cases "x \<le> 0")
  case True
  then have "round64 x \<le> 0" by (rule round64_nonpos)
  then show ?thesis using pow2_pos [of k] by linarith
next
  case False
  then have x: "0 < x" by simp
  have "expo64 x \<le> max (- 1022) k"
  proof (cases "x = pow2 k")
    case True
    then have "log 2 \<bar>x\<bar> = of_int k"
      by (simp add: pow2_def)
    then show ?thesis
      by (simp add: expo64_def)
  next
    case False
    then have "\<bar>x\<bar> < pow2 (max (- 1022) k + 1)"
      using assms(1) x pow2_le [of k "max (- 1022) k + 1"] by (simp add: max_def split: if_splits)
    then show ?thesis
      using x by (intro expo64_le) simp_all
  qed
  then have "expo64 x - 52 \<le> k"
    using assms(2) by simp
  then have "pow2 k = of_int (2 ^ nat (k - (expo64 x - 52))) * ulp64 x"
    by (rule pow2_as_ulp_multiple)
  then show ?thesis
    using assms(1) round64_upper_int [of x "2 ^ nat (k - (expo64 x - 52))"] by simp
qed

lemma round64_ge_pow2:
  assumes "pow2 k \<le> x" "- 1074 \<le> k"
  shows "pow2 k \<le> round64 x"
proof -
  have x: "0 < x"
    using assms(1) pow2_pos [of k] by linarith
  have kx: "k \<le> expo64 x"
    using assms(1) x expo64_ge_of [of k x] by simp
  show ?thesis
  proof (cases "expo64 x - 52 \<le> k")
    case True
    then have "pow2 k = of_int (2 ^ nat (k - (expo64 x - 52))) * ulp64 x"
      by (rule pow2_as_ulp_multiple)
    then show ?thesis
      using assms(1) round64_lower_int [of "2 ^ nat (k - (expo64 x - 52))" x] by simp
  next
    case False
    then have n: "- 1022 < expo64 x"
      using assms(2) by simp
    have "pow2 (expo64 x) \<le> \<bar>x\<bar>"
      using x n by (intro pow2_expo_le_abs) simp_all
    then have le: "pow2 (expo64 x) \<le> x"
      using x by simp
    have "pow2 (expo64 x) = of_int (2 ^ nat (expo64 x - (expo64 x - 52))) * ulp64 x"
      by (rule pow2_as_ulp_multiple) simp
    then have "pow2 (expo64 x) \<le> round64 x"
      using le round64_lower_int [of "2 ^ nat (expo64 x - (expo64 x - 52))" x] by simp
    moreover have "pow2 k \<le> pow2 (expo64 x)"
      using kx by (simp add: pow2_le)
    ultimately show ?thesis by linarith
  qed
qed

lemma expo64_mono_pos:
  assumes "0 < x" "x \<le> y"
  shows "expo64 x \<le> expo64 y"
proof -
  have "log 2 \<bar>x\<bar> \<le> log 2 \<bar>y\<bar>"
    using assms by simp
  then have "\<lfloor>log 2 \<bar>x\<bar>\<rfloor> \<le> \<lfloor>log 2 \<bar>y\<bar>\<rfloor>"
    by (rule floor_mono)
  then show ?thesis
    by (simp add: expo64_def)
qed

lemma round64_mono_pos:
  assumes "0 < x" "x \<le> y"
  shows "round64 x \<le> round64 y"
proof (cases "expo64 x = expo64 y")
  case True
  then have u: "ulp64 x = ulp64 y"
    by (simp add: ulp64_def)
  have "x / ulp64 y \<le> y / ulp64 y"
    using assms(2) ulp64_pos [of y] by (simp add: divide_right_mono)
  then have "rne (x / ulp64 y) \<le> rne (y / ulp64 y)"
    by (rule rne_mono)
  then have "of_int (rne (x / ulp64 y)) * ulp64 y \<le> of_int (rne (y / ulp64 y)) * ulp64 y"
    using ulp64_pos [of y] by simp
  then show ?thesis
    using assms by (simp add: round64_def u)
next
  case False
  then have lt: "expo64 x < expo64 y"
    using expo64_mono_pos [OF assms] by simp
  have "x \<le> pow2 (expo64 x + 1)"
    using abs_less_pow2_expo [of x] assms(1) by simp
  then have "round64 x \<le> pow2 (expo64 x + 1)"
    using expo64_ge [of x] by (intro round64_le_pow2) simp_all
  also have "\<dots> \<le> pow2 (expo64 y)"
    using lt by (simp add: pow2_le)
  also have "\<dots> \<le> round64 y"
  proof (rule round64_ge_pow2)
    have "- 1022 < expo64 y"
      using lt expo64_ge [of x] by simp
    then have "pow2 (expo64 y) \<le> \<bar>y\<bar>"
      using assms by (intro pow2_expo_le_abs) simp_all
    then show "pow2 (expo64 y) \<le> y"
      using assms by simp
    show "- 1074 \<le> expo64 y"
      using expo64_ge [of y] by simp
  qed
  finally show ?thesis .
qed

lemma round64_mono:
  assumes "x \<le> y"
  shows "round64 x \<le> round64 y"
proof -
  consider "0 < x" | "x \<le> 0" "0 \<le> y" | "y < 0"
    using assms by linarith
  then show ?thesis
  proof cases
    case 1
    then show ?thesis using assms by (rule round64_mono_pos)
  next
    case 2
    then show ?thesis
      using round64_nonpos [of x] round64_nonneg [of y] by simp
  next
    case 3
    then have "round64 (- y) \<le> round64 (- x)"
      using assms by (intro round64_mono_pos) simp_all
    then show ?thesis
      by (simp add: round64_minus)
  qed
qed

lemma round64_pow2:
  assumes "- 1074 \<le> k"
  shows "round64 (pow2 k) = pow2 k"
  using round64_le_pow2 [of "pow2 k" k] round64_ge_pow2 [of k "pow2 k"] assms by simp

lemma round64_1: "round64 1 = 1"
  using round64_pow2 [of 0] by (simp add: pow2_0)

lemma round64_half: "round64 (1 / 2) = 1 / 2"
  using round64_pow2 [of "- 1"] by (simp add: pow2_def powr_minus_divide)

lemma round64_le_1: "x \<le> 1 \<Longrightarrow> round64 x \<le> 1"
  using round64_mono [of x 1] by (simp add: round64_1)

lemma round64_ge_1: "1 \<le> x \<Longrightarrow> 1 \<le> round64 x"
  using round64_mono [of 1 x] by (simp add: round64_1)


lemma round64_ge_half: "1 / 2 \<le> x \<Longrightarrow> 1 / 2 \<le> round64 x"
  using round64_mono [of "1 / 2" x] by (simp add: round64_half)

lemma round64_exact:
  assumes "x = of_int n * ulp64 x"
  shows "round64 x = x"
proof -
  have le: "x \<le> of_int n * ulp64 x" and ge: "of_int n * ulp64 x \<le> x"
    using assms by simp_all
  have "round64 x \<le> of_int n * ulp64 x"
    using le by (rule round64_upper_int)
  moreover have "of_int n * ulp64 x \<le> round64 x"
    using ge by (rule round64_lower_int)
  ultimately show ?thesis
    using assms by linarith
qed

lemma round64_int:
  assumes "\<bar>m\<bar> < 2 ^ 53"
  shows "round64 (of_int m) = of_int m"
proof (cases "m = 0")
  case True
  then show ?thesis by (simp add: round64_0)
next
  case False
  let ?x = "real_of_int m"
  have "1 \<le> \<bar>?x\<bar>"
    using False by (simp flip: of_int_abs)
  then have "pow2 0 \<le> \<bar>?x\<bar>"
    by (simp add: pow2_0)
  then have lo: "0 \<le> expo64 ?x"
    by (rule expo64_ge_of)
  have "\<bar>?x\<bar> < 2 ^ 53"
    using assms by (simp flip: of_int_abs add: of_int_less_numeral_power_cancel_iff)
  then have "\<bar>?x\<bar> < pow2 (52 + 1)"
    by (simp add: pow2_numeral)
  then have hi: "expo64 ?x \<le> 52"
    using False by (intro expo64_le) simp_all
  have "pow2 0 = of_int (2 ^ nat (0 - (expo64 ?x - 52))) * ulp64 ?x"
    using hi by (intro pow2_as_ulp_multiple) simp
  then have "1 = of_int (2 ^ nat (0 - (expo64 ?x - 52))) * ulp64 ?x"
    by (simp only: pow2_0)
  then have "?x * 1 = ?x * (of_int (2 ^ nat (0 - (expo64 ?x - 52))) * ulp64 ?x)"
    by (simp only:)
  then have "?x = of_int (m * 2 ^ nat (0 - (expo64 ?x - 52))) * ulp64 ?x"
    by (simp only: mult_1_right of_int_mult mult.assoc)
  then show ?thesis
    by (rule round64_exact)
qed

lemma round64_near_1:
  assumes "1 - 1 / 2 ^ 54 < x" "x \<le> 1"
  shows "round64 x = 1"
proof (cases "x = 1")
  case True
  then show ?thesis by (simp add: round64_1)
next
  case False
  then have x1: "x < 1" using assms(2) by simp
  have xh: "1 / 2 \<le> x"
  proof -
    have "(1::real) / 2 ^ 54 \<le> 1 / 2" by simp
    then show ?thesis using assms(1) by linarith
  qed
  have e: "expo64 x = - 1"
    using x1 xh by (intro expo64_eq) (simp_all add: pow2_def powr_minus_divide)
  have u: "ulp64 x = 1 / 2 ^ 53"
    by (simp add: ulp64_def e pow2_neg_numeral)
  have "real_of_int (2 ^ 53) - 1 / 2 < x / ulp64 x"
    using assms(1) by (simp add: u)
  then have "2 ^ 53 \<le> rne (x / ulp64 x)"
    by (rule rne_half_up)
  then have "real_of_int (2 ^ 53) * ulp64 x \<le> real_of_int (rne (x / ulp64 x)) * ulp64 x"
    using ulp64_pos [of x] by (simp only: mult_le_cancel_right_pos of_int_le_iff)
  then have "1 \<le> round64 x"
    using xh by (simp add: round64_def u)
  then show ?thesis
    using round64_le_1 [of x] assms(2) by simp
qed

lemma round64_gt_1:
  assumes "1 + 1 / 2 ^ 52 \<le> x"
  shows "1 < round64 x"
proof -
  have "round64 (1 + 1 / 2 ^ 52) \<le> round64 x"
    using assms by (rule round64_mono)
  moreover have "round64 (1 + 1 / 2 ^ 52) = 1 + 1 / 2 ^ 52"
  proof -
    let ?c = "1 + 1 / 2 ^ 52 :: real"
    have e: "expo64 ?c = 0"
      by (intro expo64_eq) (simp_all add: pow2_def)
    have u: "ulp64 ?c = 1 / 2 ^ 52"
      unfolding ulp64_def e by (simp add: pow2_neg_numeral)
    have "?c = real_of_int (2 ^ 52 + 1) * ulp64 ?c"
      unfolding u by simp
    then show ?thesis
      by (rule round64_exact)
  qed
  ultimately show ?thesis
    by simp
qed

section \<open>Float operations\<close>

lemma fl_Fin:
  assumes "\<bar>x\<bar> \<le> 2 ^ 1023"
  shows "fl x = Fin (round64 x)"
proof -
  have "x \<le> pow2 1023" "- x \<le> pow2 1023"
    using assms by (simp_all add: pow2_numeral)
  then have "round64 x \<le> pow2 1023" "round64 (- x) \<le> pow2 1023"
    by (simp_all add: round64_le_pow2)
  then have "round64 x \<le> 2 ^ 1023" "- (2 ^ 1023) \<le> round64 x"
    by (simp_all add: pow2_numeral round64_minus)
  moreover have "(2::real) ^ 1023 < 2 ^ 1024"
    by simp
  ultimately show ?thesis
    by (simp add: fl_def Let_def)
qed

lemma fl_0: "fl 0 = Fin 0"
  using fl_Fin [of 0] by (simp add: round64_0)

lemma fl_1: "fl 1 = Fin 1"
  using fl_Fin [of 1] by (simp add: round64_1)

lemma fl_cases:
  "fl x = PosInf \<and> 2 ^ 1024 \<le> round64 x
   \<or> fl x = NegInf \<and> round64 x \<le> - (2 ^ 1024)
   \<or> fl x = Fin (round64 x)"
  by (simp add: fl_def Let_def)

section \<open>The threshold solver\<close>

lemma gammainc_Suc_0: "gammainc (Suc 0) x = 1 - exp (- x)"
  by (simp add: gammainc_def)

lemma gammainc_1_inverse:
  assumes "0 < y" "y < 1"
  shows "(THE x. 0 < x \<and> gammainc 1 x = y) = - ln (1 - y)"
proof (rule the_equality)
  show "0 < - ln (1 - y) \<and> gammainc 1 (- ln (1 - y)) = y"
    using assms by (simp add: gammainc_Suc_0)
next
  fix x
  assume "0 < x \<and> gammainc 1 x = y"
  then have "exp (- x) = 1 - y"
    by (simp add: gammainc_Suc_0)
  then have "- x = ln (1 - y)"
    by (metis ln_exp)
  then show "x = - ln (1 - y)"
    by simp
qed

lemma gammainc_1_inj: "gammainc 1 x = gammainc 1 x' \<Longrightarrow> x = x'"
  by (simp add: gammainc_Suc_0)

lemma gammaincinv_1_interior:
  assumes "0 < y" "y < 1"
  shows "gammaincinv 1 (Fin y) = fl (- ln (1 - y))"
  using assms gammainc_1_inverse [of y] by (simp add: gammaincinv_def)

lemma gammaincinv_1_at_1: "gammaincinv 1 (Fin 1) = PosInf"
  by (simp add: gammaincinv_def)

lemma gammaincinv_1_at_0: "gammaincinv 1 (Fin 0) = Fin 0"
  by (simp add: gammaincinv_def)

lemma gammaincinv_1_outside: "y < 0 \<or> 1 < y \<Longrightarrow> gammaincinv 1 (Fin y) = NaN"
  by (simp add: gammaincinv_def)

lemma solver_as_threshold_of_complement: "snr_threshold_given_false_positive_rate p = threshold_of_complement (fl (1 - p))"
  by (simp add: snr_threshold_given_false_positive_rate_def threshold_of_complement_def)

lemma threshold_of_complement_1: "threshold_of_complement (Fin 1) = Inr PosInf"
  by (simp add: threshold_of_complement_def gammaincinv_def np_log10_def inf_of_sign_def)

lemma threshold_of_complement_0: "threshold_of_complement (Fin 0) = Inr NegInf"
  by (simp add: threshold_of_complement_def gammaincinv_def np_log10_def inf_of_sign_def)

lemma threshold_of_complement_outside: "y < 0 \<or> 1 < y \<Longrightarrow> threshold_of_complement (Fin y) = Inr NaN"
  by (auto simp add: threshold_of_complement_def gammaincinv_def np_log10_def)

lemma threshold_of_complement_nonfinite: "threshold_of_complement PosInf = Inr NaN" "threshold_of_complement NegInf = Inr NaN" "threshold_of_complement NaN = Inr NaN"
  by (simp_all add: threshold_of_complement_def gammaincinv_def np_log10_def)

lemma threshold_of_complement_interior:
  assumes "0 < y" "y < 1"
  shows "threshold_of_complement (Fin y) = Inr (np_mul (Fin 10) (np_log10 (fl (- ln (1 - y)))))"
  by (simp only: threshold_of_complement_def gammaincinv_1_interior [OF assms])

lemma fl_complement_unit:
  assumes "0 < p" "p < 1"
  shows "fl (1 - p) = Fin (round64 (1 - p))" "0 \<le> round64 (1 - p)" "round64 (1 - p) \<le> 1"
proof -
  have "\<bar>1 - p\<bar> \<le> 1"
    using assms by simp
  also have "(1::real) \<le> 2 ^ 1023"
    by simp
  finally show "fl (1 - p) = Fin (round64 (1 - p))"
    by (rule fl_Fin)
  show "0 \<le> round64 (1 - p)"
    using assms by (intro round64_nonneg) simp
  show "round64 (1 - p) \<le> 1"
    using assms by (intro round64_le_1) simp
qed

lemma solver_tiny_rate:
  assumes "0 < p" "p < 1 / 2 ^ 54"
  shows "snr_threshold_given_false_positive_rate p = Inr PosInf"
proof -
  have "round64 (1 - p) = 1"
    using assms by (intro round64_near_1) simp_all
  moreover have "p < 1"
  proof -
    have "(1::real) / 2 ^ 54 \<le> 1" by simp
    then show ?thesis using assms(2) by linarith
  qed
  ultimately have "fl (1 - p) = Fin 1"
    using fl_complement_unit(1) [OF assms(1)] by simp
  then show ?thesis
    by (simp add: solver_as_threshold_of_complement threshold_of_complement_1)
qed

lemma ln_2_bounds: "1 / 2 < ln (2::real)" "ln (2::real) < 1"
proof -
  have "exp (1 / 2 :: real) * exp (1 / 2) = exp 1"
    by (simp add: exp_add [symmetric])
  moreover have "exp (1::real) < 4"
    using exp_le by simp
  ultimately have "(exp (1 / 2 :: real))\<^sup>2 < 2\<^sup>2"
    by (simp add: power2_eq_square)
  then have "exp (1 / 2 :: real) < 2"
    by (rule power2_less_imp_less) simp
  then have "ln (exp (1 / 2 :: real)) < ln 2"
    by (simp only: ln_less_cancel_iff exp_gt_zero zero_less_numeral)
  then show "1 / 2 < ln (2::real)"
    by simp
  show "ln (2::real) < 1"
    by (rule ln_2_less_1)
qed

lemma round64_minus_1: "round64 (- 1) = - 1"
  by (simp add: round64_minus round64_1)

lemma solver_at_half_nonpos:
  "\<exists>u. snr_threshold_given_false_positive_rate (1 / 2) = Inr (Fin u) \<and> u \<le> 0"
proof -
  define v where "v = round64 (ln 2)"
  define w where "w = round64 (log 10 v)"
  define u where "u = round64 (10 * w)"
  have "fl (1 - 1 / 2) = Fin (1 / 2)"
    using fl_Fin [of "1 / 2"] by (simp add: round64_half)
  then have s: "snr_threshold_given_false_positive_rate (1 / 2)
      = Inr (np_mul (Fin 10) (np_log10 (fl (- ln (1 - 1 / 2)))))"
    using threshold_of_complement_interior [of "1 / 2"] by (simp add: solver_as_threshold_of_complement)
  have s': "snr_threshold_given_false_positive_rate (1 / 2)
      = Inr (np_mul (Fin 10) (np_log10 (fl (ln 2))))"
    using s by (simp add: ln_div)
  have "\<bar>ln (2::real)\<bar> \<le> 2 ^ 1023"
  proof -
    have "\<bar>ln (2::real)\<bar> \<le> 1" using ln_2_bounds by simp
    also have "(1::real) \<le> 2 ^ 1023" by simp
    finally show ?thesis .
  qed
  then have f1: "fl (ln 2) = Fin v"
    unfolding v_def by (rule fl_Fin)
  have v: "1 / 2 \<le> v" "v \<le> 1"
    using ln_2_bounds round64_ge_half [of "ln 2"] round64_le_1 [of "ln 2"] by (simp_all add: v_def)
  then have vpos: "0 < v" by simp
  have lg: "- 1 \<le> log 10 v" "log 10 v \<le> 0"
  proof -
    have "(10::real) powr (- 1) \<le> v"
      using v(1) by (simp add: powr_minus_divide)
    then show "- 1 \<le> log 10 v"
      using vpos by (simp add: le_log_iff)
    show "log 10 v \<le> 0"
      using v(2) vpos by simp
  qed
  have "\<bar>log 10 v\<bar> \<le> 2 ^ 1023"
  proof -
    have "\<bar>log 10 v\<bar> \<le> 1" using lg by simp
    also have "(1::real) \<le> 2 ^ 1023" by simp
    finally show ?thesis .
  qed
  then have f2: "fl (log 10 v) = Fin w"
    unfolding w_def by (rule fl_Fin)
  have w: "- 1 \<le> w" "w \<le> 0"
    using lg round64_mono [of "- 1" "log 10 v"] round64_nonpos [of "log 10 v"]
    by (simp_all add: w_def round64_minus_1)
  have "\<bar>10 * w\<bar> \<le> 2 ^ 1023"
  proof -
    have "\<bar>10 * w\<bar> \<le> 10" using w by simp
    also have "(10::real) \<le> 2 ^ 1023" by simp
    finally show ?thesis .
  qed
  then have f3: "fl (10 * w) = Fin u"
    unfolding u_def by (rule fl_Fin)
  have "u \<le> 0"
    using w by (simp add: u_def round64_nonpos)
  moreover have "snr_threshold_given_false_positive_rate (1 / 2) = Inr (Fin u)"
    using vpos by (simp add: s' f1 np_log10_def f2 f3)
  ultimately show ?thesis
    by blast
qed

lemma spec_closed_form_at_half_pos: "0 < 10 * log 10 (- 2 * ln (1 / 2 :: real))"
proof -
  have "1 < 2 * ln (2::real)"
    using ln_2_bounds(1) by simp
  then have "0 < log 10 (2 * ln (2::real))"
    by simp
  then show ?thesis
    by (simp add: ln_div)
qed

text \<open>
  The specification's closed form \<open>10 * log10 (-2 * ln p)\<close> is not what the solver
  returns: at \<open>p = 1/2\<close> the subtraction is exact, the solver returns a value that is not
  positive (the float evaluation of \<open>10 * log10 (ln 2)\<close>), and the closed form is positive
  (\<open>10 * log10 (2 * ln 2)\<close>).
\<close>

theorem spec_closed_form_fails_at_half:
  "\<not> result_within (1 / 10 ^ 9) (snr_threshold_given_false_positive_rate (1 / 2))
       (10 * log 10 (- 2 * ln (1 / 2)))"
proof -
  obtain u where u: "snr_threshold_given_false_positive_rate (1 / 2) = Inr (Fin u)" "u \<le> 0"
    using solver_at_half_nonpos by blast
  define e :: real where "e = 10 * log 10 (- 2 * ln (1 / 2))"
  have e: "0 < e"
    unfolding e_def by (rule spec_closed_form_at_half_pos)
  have "1 / 10 ^ 9 * \<bar>e\<bar> < e"
    using e by simp
  moreover have "e \<le> \<bar>u - e\<bar>"
    using u(2) e by simp
  ultimately have "\<not> \<bar>u - e\<bar> \<le> 1 / 10 ^ 9 * \<bar>e\<bar>"
    by linarith
  then show ?thesis
    by (simp add: result_within_def u(1) e_def)
qed

text \<open>
  C1 (as amended): for every false-positive rate \<open>p\<close> in the open interval \<open>(0, 1)\<close>, let
  \<open>y\<close> be the float nearest to \<open>1 - p\<close>, which lies in \<open>[0, 1]\<close>. The solver returns
  \<^verbatim>\<open>inf\<close> when \<open>y = 1\<close>, \<^verbatim>\<open>-inf\<close> when \<open>y = 0\<close>, and otherwise the float evaluation of
  \<open>10 * log10 (- ln (1 - y))\<close>: the closed form with \<open>- ln\<close> in place of \<open>-2 * ln\<close>, taken at
  \<open>1 - y\<close> in place of \<open>p\<close>.
\<close>

theorem threshold_closed_form:
  assumes "0 < p" "p < 1"
  shows "0 \<le> round64 (1 - p) \<and> round64 (1 - p) \<le> 1
    \<and> (round64 (1 - p) = 1 \<longrightarrow> snr_threshold_given_false_positive_rate p = Inr PosInf)
    \<and> (round64 (1 - p) = 0 \<longrightarrow> snr_threshold_given_false_positive_rate p = Inr NegInf)
    \<and> (0 < round64 (1 - p) \<and> round64 (1 - p) < 1 \<longrightarrow>
         snr_threshold_given_false_positive_rate p
           = Inr (np_mul (Fin 10) (np_log10 (fl (- ln (1 - round64 (1 - p)))))))"
  using fl_complement_unit [OF assms]
  by (simp add: solver_as_threshold_of_complement threshold_of_complement_1 threshold_of_complement_0 threshold_of_complement_interior)

theorem threshold_closed_form_witness:
  "(0::real) < 1 / 2 \<and> (1 / 2 :: real) < 1
   \<and> 0 < round64 (1 - 1 / 2) \<and> round64 (1 - 1 / 2) < 1
   \<and> snr_threshold_given_false_positive_rate (1 / 2)
        = Inr (np_mul (Fin 10) (np_log10 (fl (- ln (1 / 2)))))"
  using threshold_closed_form [of "1 / 2"] by (simp add: round64_half)

text \<open>
  Outside the open interval the solver signals no error. At the four inputs that the
  specification names (0.0, 1.0, the float nearest to -0.1, and 1.5) it returns
  \<^verbatim>\<open>inf\<close>, \<^verbatim>\<open>-inf\<close>, \<^verbatim>\<open>nan\<close> and \<^verbatim>\<open>nan\<close>.
\<close>

theorem threshold_no_domain_error:
  "snr_threshold_given_false_positive_rate 0 = Inr PosInf
   \<and> snr_threshold_given_false_positive_rate 1 = Inr NegInf
   \<and> snr_threshold_given_false_positive_rate (round64 (- 1 / 10)) = Inr NaN
   \<and> snr_threshold_given_false_positive_rate (3 / 2) = Inr NaN"
proof -
  have a: "snr_threshold_given_false_positive_rate 0 = Inr PosInf"
    by (simp add: solver_as_threshold_of_complement fl_1 threshold_of_complement_1)
  have b: "snr_threshold_given_false_positive_rate 1 = Inr NegInf"
    by (simp add: solver_as_threshold_of_complement fl_0 threshold_of_complement_0)
  define q where "q = round64 (- 1 / 10)"
  have "pow2 (- 4) \<le> round64 (1 / 10)"
    by (rule round64_ge_pow2) (simp_all add: pow2_neg_numeral)
  then have q1: "q \<le> - (1 / 16)"
    using round64_minus [of "1 / 10"] by (simp add: q_def pow2_neg_numeral)
  have "round64 (1 / 10) \<le> pow2 0"
    by (rule round64_le_pow2) (simp_all add: pow2_0)
  then have q2: "- 1 \<le> q"
    using round64_minus [of "1 / 10"] by (simp add: q_def pow2_0)
  have "fl (1 - q) = Fin (round64 (1 - q))"
  proof (rule fl_Fin)
    have "\<bar>1 - q\<bar> \<le> 2" using q1 q2 by simp
    also have "(2::real) \<le> 2 ^ 1023" by simp
    finally show "\<bar>1 - q\<bar> \<le> 2 ^ 1023" .
  qed
  moreover have "1 < round64 (1 - q)"
  proof (rule round64_gt_1)
    have "(1::real) / 2 ^ 52 \<le> 1 / 16" by simp
    then show "1 + 1 / 2 ^ 52 \<le> 1 - q" using q1 by linarith
  qed
  ultimately have c: "snr_threshold_given_false_positive_rate q = Inr NaN"
    by (simp add: solver_as_threshold_of_complement threshold_of_complement_outside)
  have "fl (- (1 / 2)) = Fin (round64 (- (1 / 2)))"
    by (rule fl_Fin) simp
  then have d: "snr_threshold_given_false_positive_rate (3 / 2) = Inr NaN"
    by (simp add: solver_as_threshold_of_complement threshold_of_complement_outside round64_minus round64_half)
  show ?thesis
    using a b c d unfolding q_def by simp
qed

text \<open>
  C2 (as amended): for every false-positive rate \<open>p \<le> 0\<close> or \<open>p \<ge> 1\<close> the threshold
  solver raises no error; it returns a value that is not finite: \<^verbatim>\<open>inf\<close>, \<^verbatim>\<open>-inf\<close> or
  \<^verbatim>\<open>nan\<close>.
\<close>

theorem threshold_outside_domain_returns:
  assumes "p \<le> 0 \<or> 1 \<le> p"
  shows "snr_threshold_given_false_positive_rate p = Inr PosInf
    \<or> snr_threshold_given_false_positive_rate p = Inr NegInf
    \<or> snr_threshold_given_false_positive_rate p = Inr NaN"
proof -
  consider "fl (1 - p) = PosInf" | "fl (1 - p) = NegInf" | "fl (1 - p) = Fin (round64 (1 - p))"
    using fl_cases [of "1 - p"] by blast
  then show ?thesis
  proof cases
    case 1
    then show ?thesis by (simp add: solver_as_threshold_of_complement threshold_of_complement_nonfinite)
  next
    case 2
    then show ?thesis by (simp add: solver_as_threshold_of_complement threshold_of_complement_nonfinite)
  next
    case 3
    have "1 \<le> round64 (1 - p) \<or> round64 (1 - p) \<le> 0"
      using assms round64_ge_1 [of "1 - p"] round64_nonpos [of "1 - p"] by auto
    then consider "round64 (1 - p) = 1" | "round64 (1 - p) = 0"
      | "round64 (1 - p) < 0 \<or> 1 < round64 (1 - p)"
      by linarith
    then show ?thesis
      using 3 by cases (simp_all add: solver_as_threshold_of_complement threshold_of_complement_1 threshold_of_complement_0 threshold_of_complement_outside)
  qed
qed

theorem threshold_outside_domain_returns_witness:
  "((3 / 2 :: real) \<le> 0 \<or> 1 \<le> (3 / 2 :: real))
   \<and> (snr_threshold_given_false_positive_rate (3 / 2) = Inr PosInf
      \<or> snr_threshold_given_false_positive_rate (3 / 2) = Inr NegInf
      \<or> snr_threshold_given_false_positive_rate (3 / 2) = Inr NaN)"
  using threshold_outside_domain_returns [of "3 / 2"] by simp

text \<open>
  For a rate below \<open>2^-54\<close> the float \<^verbatim>\<open>1-false_positive_rate\<close> is 1 and the solver
  returns \<^verbatim>\<open>inf\<close>, not ten times the logarithm of the inverse at \<open>1 - p\<close>, which is finite.
\<close>

theorem threshold_infinite_at_tiny_rate:
  "snr_threshold_given_false_positive_rate (1 / 2 ^ 60) = Inr PosInf"
  by (rule solver_tiny_rate) simp_all

text \<open>
  C3 (as amended): for every \<open>p\<close> in \<open>(0, 1)\<close>, let \<open>y\<close> be the float nearest to \<open>1 - p\<close>.
  When \<open>0 < y < 1\<close> the regularized lower incomplete gamma function with shape 1 takes
  the value \<open>y\<close> at exactly one point \<open>x\<close>, that point is positive, and the solver returns
  the float evaluation of \<open>10 * log10 x\<close>; it returns \<^verbatim>\<open>inf\<close> when \<open>y = 1\<close> and \<^verbatim>\<open>-inf\<close>
  when \<open>y = 0\<close>.
\<close>

theorem threshold_inverts_gammainc:
  assumes "0 < p" "p < 1"
  shows "0 \<le> round64 (1 - p) \<and> round64 (1 - p) \<le> 1
    \<and> (round64 (1 - p) = 1 \<longrightarrow> snr_threshold_given_false_positive_rate p = Inr PosInf)
    \<and> (round64 (1 - p) = 0 \<longrightarrow> snr_threshold_given_false_positive_rate p = Inr NegInf)
    \<and> (0 < round64 (1 - p) \<and> round64 (1 - p) < 1 \<longrightarrow>
         (\<exists>x. 0 < x \<and> gammainc 1 x = round64 (1 - p)
            \<and> (\<forall>x'. gammainc 1 x' = round64 (1 - p) \<longrightarrow> x' = x)
            \<and> snr_threshold_given_false_positive_rate p
                 = Inr (np_mul (Fin 10) (np_log10 (fl x)))))"
proof -
  define y where "y = round64 (1 - p)"
  have f: "fl (1 - p) = Fin y" and y: "0 \<le> y" "y \<le> 1"
    using fl_complement_unit [OF assms] by (simp_all add: y_def)
  have "\<exists>x. 0 < x \<and> gammainc 1 x = y \<and> (\<forall>x'. gammainc 1 x' = y \<longrightarrow> x' = x)
      \<and> snr_threshold_given_false_positive_rate p = Inr (np_mul (Fin 10) (np_log10 (fl x)))"
    if "0 < y" "y < 1"
  proof (intro exI [of _ "- ln (1 - y)"] conjI allI impI)
    show "0 < - ln (1 - y)"
      using that by simp
    show g: "gammainc 1 (- ln (1 - y)) = y"
      using that by (simp add: gammainc_Suc_0)
    show "x' = - ln (1 - y)" if "gammainc 1 x' = y" for x'
      using that g gammainc_1_inj [of x' "- ln (1 - y)"] by simp
    show "snr_threshold_given_false_positive_rate p
        = Inr (np_mul (Fin 10) (np_log10 (fl (- ln (1 - y)))))"
      using \<open>0 < y\<close> \<open>y < 1\<close> by (simp add: solver_as_threshold_of_complement f threshold_of_complement_interior)
  qed
  then show ?thesis
    using y f unfolding y_def [symmetric] by (simp add: solver_as_threshold_of_complement threshold_of_complement_1 threshold_of_complement_0)
qed

theorem threshold_inverts_gammainc_witness:
  "(0::real) < 1 / 2 \<and> (1 / 2 :: real) < 1
   \<and> 0 < round64 (1 - 1 / 2) \<and> round64 (1 - 1 / 2) < 1
   \<and> (\<exists>x. 0 < x \<and> gammainc 1 x = round64 (1 - 1 / 2)
        \<and> snr_threshold_given_false_positive_rate (1 / 2)
             = Inr (np_mul (Fin 10) (np_log10 (fl x))))"
  using threshold_inverts_gammainc [of "1 / 2"] by (auto simp add: round64_half)




lemma fl_not_NaN: "fl x \<noteq> NaN"
  by (simp add: fl_def Let_def)

lemma np_le_refl: "a \<noteq> NaN \<Longrightarrow> np_le a a"
  by (cases a) simp_all

lemma np_le_NegInf: "a \<noteq> NaN \<Longrightarrow> np_le NegInf a"
  by (cases a) simp_all

lemma np_le_PosInf: "a \<noteq> NaN \<Longrightarrow> np_le a PosInf"
  by (cases a) simp_all

lemma np_le_Fin: "np_le (Fin x) (Fin y) \<longleftrightarrow> x \<le> y"
  by auto

lemma fl_mono:
  assumes "x \<le> y"
  shows "np_le (fl x) (fl y)"
proof -
  have "round64 x \<le> round64 y"
    using assms by (rule round64_mono)
  then show ?thesis
    by (auto simp add: fl_def Let_def)
qed

lemma fl_nonneg: "0 \<le> x \<Longrightarrow> np_nonneg (fl x)"
  using round64_nonneg [of x] by (auto simp add: fl_def Let_def np_nonneg_def)

lemma np_log10_not_NaN: "np_nonneg a \<Longrightarrow> np_log10 a \<noteq> NaN"
  by (cases a) (auto simp add: np_log10_def np_nonneg_def fl_not_NaN)

lemma np_log10_mono:
  assumes "np_le a b" "np_nonneg a" "np_nonneg b"
  shows "np_le (np_log10 a) (np_log10 b)"
proof (cases a)
  case (Fin v)
  note a = this
  show ?thesis
  proof (cases b)
    case (Fin w)
    have vw: "0 \<le> v" "v \<le> w"
      using assms a Fin by (auto simp add: np_nonneg_def)
    show ?thesis
    proof (cases "v = 0")
      case True
      then have "np_log10 a = NegInf"
        by (simp add: a np_log10_def)
      then show ?thesis
        using np_log10_not_NaN [OF assms(3)] by (simp add: np_le_NegInf)
    next
      case False
      then have "0 < v" "0 < w" "log 10 v \<le> log 10 w"
        using vw by simp_all
      then show ?thesis
        by (simp add: a Fin np_log10_def fl_mono)
    qed
  next
    case PosInf
    then have "np_log10 b = PosInf"
      by (simp add: np_log10_def)
    then show ?thesis
      using np_log10_not_NaN [OF assms(2)] by (simp add: np_le_PosInf)
  qed (use assms in \<open>simp_all add: np_nonneg_def\<close>)
next
  case PosInf
  then show ?thesis
    using assms by (cases b) (simp_all add: np_log10_def np_nonneg_def)
qed (use assms in \<open>simp_all add: np_nonneg_def\<close>)

lemma np_mul_10_not_NaN: "a \<noteq> NaN \<Longrightarrow> np_mul (Fin 10) a \<noteq> NaN"
  by (cases a) (simp_all add: fl_not_NaN inf_of_sign_def)

lemma np_mul_10_mono:
  assumes "np_le a b"
  shows "np_le (np_mul (Fin 10) a) (np_mul (Fin 10) b)"
  using assms
  by (cases a; cases b)
    (auto simp add: inf_of_sign_def np_le_PosInf np_le_NegInf fl_not_NaN np_le_refl intro!: fl_mono)

lemma gammaincinv_1_nonneg:
  assumes "0 \<le> y" "y \<le> 1"
  shows "np_nonneg (gammaincinv 1 (Fin y))"
proof -
  consider "y = 0" | "y = 1" | "0 < y" "y < 1"
    using assms by linarith
  then show ?thesis
  proof cases
    case 3
    then have "0 \<le> - ln (1 - y)" by simp
    then show ?thesis
      using 3 by (simp add: gammaincinv_1_interior fl_nonneg del: One_nat_def)
  qed (simp_all add: gammaincinv_1_at_0 gammaincinv_1_at_1 np_nonneg_def del: One_nat_def)
qed

lemma gammaincinv_1_mono:
  assumes "0 \<le> y" "y \<le> z" "z \<le> 1"
  shows "np_le (gammaincinv 1 (Fin y)) (gammaincinv 1 (Fin z))"
proof -
  have nn: "gammaincinv 1 (Fin y) \<noteq> NaN" "gammaincinv 1 (Fin z) \<noteq> NaN"
    using gammaincinv_1_nonneg [of y] gammaincinv_1_nonneg [of z] assms
    by (auto simp add: np_nonneg_def)
  consider "z = 1" | "y = 0" "z < 1" | "0 < y" "z < 1"
    using assms by linarith
  then show ?thesis
  proof cases
    case 1
    then show ?thesis
      using nn by (simp add: gammaincinv_1_at_1 np_le_PosInf del: One_nat_def)
  next
    case 2
    have "np_nonneg (gammaincinv 1 (Fin z))"
      using assms by (intro gammaincinv_1_nonneg) simp_all
    then show ?thesis
      using 2
      by (cases "gammaincinv 1 (Fin z)")
        (auto simp add: gammaincinv_1_at_0 np_nonneg_def simp del: One_nat_def)
  next
    case 3
    then have "0 < z" "y < 1"
      using assms by simp_all
    moreover have "- ln (1 - y) \<le> - ln (1 - z)"
      using 3 assms by simp
    ultimately show ?thesis
      using 3 by (simp add: gammaincinv_1_interior fl_mono del: One_nat_def)
  qed
qed

lemma threshold_of_complement_mono:
  assumes "0 \<le> y" "y \<le> z" "z \<le> 1"
  shows "result_le (threshold_of_complement (Fin y)) (threshold_of_complement (Fin z))"
proof -
  have "np_le (np_log10 (gammaincinv 1 (Fin y))) (np_log10 (gammaincinv 1 (Fin z)))"
    using assms
    by (intro np_log10_mono gammaincinv_1_mono gammaincinv_1_nonneg) simp_all
  then have "np_le (np_mul (Fin 10) (np_log10 (gammaincinv 1 (Fin y))))
      (np_mul (Fin 10) (np_log10 (gammaincinv 1 (Fin z))))"
    by (rule np_mul_10_mono)
  then show ?thesis
    by (simp add: result_le_def threshold_of_complement_def del: One_nat_def)
qed

text \<open>
  The solver is not strictly decreasing: the rates \<open>2^-62 < 2^-55\<close> both have the float
  complement 1, and the solver returns \<^verbatim>\<open>inf\<close> at both.
\<close>

theorem threshold_not_strictly_decreasing:
  "\<not> result_less (snr_threshold_given_false_positive_rate (1 / 2 ^ 55))
       (snr_threshold_given_false_positive_rate (1 / 2 ^ 62))"
proof -
  have "snr_threshold_given_false_positive_rate (1 / 2 ^ 55) = Inr PosInf"
    by (rule solver_tiny_rate) simp_all
  moreover have "snr_threshold_given_false_positive_rate (1 / 2 ^ 62) = Inr PosInf"
    by (rule solver_tiny_rate) simp_all
  ultimately show ?thesis
    by (simp add: result_less_def)
qed

text \<open>
  C8 (as amended): the threshold solver is non-increasing on \<open>(0, 1)\<close>: for
  \<open>0 < p1 < p2 < 1\<close> both calls return and the value at \<open>p2\<close> is at most the value at
  \<open>p1\<close>.
\<close>

theorem threshold_decreasing:
  assumes "0 < p1" "p1 < p2" "p2 < 1"
  shows "result_le (snr_threshold_given_false_positive_rate p2)
    (snr_threshold_given_false_positive_rate p1)"
proof -
  have p: "0 < p2" "p1 < 1"
    using assms by simp_all
  have "round64 (1 - p2) \<le> round64 (1 - p1)"
    using assms by (intro round64_mono) simp
  then have "result_le (threshold_of_complement (Fin (round64 (1 - p2)))) (threshold_of_complement (Fin (round64 (1 - p1))))"
    using fl_complement_unit(2) [OF p(1) assms(3)] fl_complement_unit(3) [OF assms(1) p(2)]
    by (intro threshold_of_complement_mono) simp_all
  then show ?thesis
    by (simp add: solver_as_threshold_of_complement fl_complement_unit(1) [OF p(1) assms(3)]
        fl_complement_unit(1) [OF assms(1) p(2)])
qed

theorem threshold_decreasing_witness:
  "(0::real) < 1 / 4 \<and> (1 / 4 :: real) < 1 / 2 \<and> (1 / 2 :: real) < 1
   \<and> result_le (snr_threshold_given_false_positive_rate (1 / 2))
        (snr_threshold_given_false_positive_rate (1 / 4))"
  using threshold_decreasing [of "1 / 4" "1 / 2"] by simp

section \<open>The non-central chi-squared distribution function\<close>



lemma poisson_pmf_zero_mean: "poisson_pmf 0 j = (if j = 0 then 1 else 0)"
  by (simp add: poisson_pmf_def)




























section \<open>The detection probability evaluator\<close>

lemma py_pow10_overflow: "pow_overflows z \<Longrightarrow> py_pow10 (round64 (z / 10)) = Inl OverflowError"
  by (simp add: py_pow10_def pow_overflows_def)

lemma py_pow10_returns:
  "\<not> pow_overflows z \<Longrightarrow> py_pow10 (round64 (z / 10)) = Inr (round64 (10 powr round64 (z / 10)))"
  by (simp add: py_pow10_def pow_overflows_def)

lemma evaluator_structure:
  "true_positive_rate_given_snr_and_threshold cdf threshold snr isPeak =
     (if pow_overflows threshold \<or> pow_overflows snr then Inl OverflowError
      else Inr (np_sub (Fin 1)
             (cdf (evaluator_point threshold) 2 (evaluator_noncentrality snr isPeak))))"
  by (cases "pow_overflows threshold"; cases "pow_overflows snr")
    (simp_all add: true_positive_rate_given_snr_and_threshold_def py_pow10_overflow
      py_pow10_returns evaluator_point_def evaluator_noncentrality_def)





lemma round64_numeral_400: "round64 400 = 400"
  using round64_int [of 400] by simp




lemma pow_overflows_ge_400:
  assumes "400 \<le> round64 (z / 10)"
  shows "pow_overflows z"
proof -
  have "(2::real) ^ 1024 \<le> 2 ^ 1200"
    by (rule power_increasing) simp_all
  also have "(2::real) ^ 1200 = (2 ^ 3) ^ 400"
    by (simp only: power_mult [symmetric]) simp
  also have "\<dots> \<le> 10 ^ 400"
    by (rule power_mono) simp_all
  also have "\<dots> = 10 powr 400"
    by (rule powr_numeral [symmetric]) simp
  also have "\<dots> \<le> 10 powr round64 (z / 10)"
    using assms by (intro powr_mono) simp_all
  finally have "pow2 1024 \<le> 10 powr round64 (z / 10)"
    by (simp add: pow2_numeral)
  then have "pow2 1024 \<le> round64 (10 powr round64 (z / 10))"
    by (rule round64_ge_pow2) simp
  then show ?thesis
    by (simp add: pow_overflows_def pow2_numeral)
qed

lemma pow_overflows_4000: "pow_overflows 4000"
  by (rule pow_overflows_ge_400) (simp add: round64_numeral_400)

lemma pow_overflows_ge_4000:
  assumes "4000 \<le> z"
  shows "pow_overflows z"
proof (rule pow_overflows_ge_400)
  have "round64 400 \<le> round64 (z / 10)"
    using assms by (intro round64_mono) simp
  then show "400 \<le> round64 (z / 10)"
    by (simp add: round64_numeral_400)
qed

































lemma rne_error: "\<bar>of_int (rne r) - r\<bar> \<le> 1 / 2"
proof -
  define f where "f = \<lfloor>r\<rfloor>"
  define d where "d = r - of_int f"
  have d: "0 \<le> d" "d < 1"
    unfolding d_def f_def by linarith+
  have r: "r = of_int f + d"
    by (simp add: d_def)
  have "rne r = (if d < 1 / 2 then f else if 1 / 2 < d then f + 1
      else if even f then f else f + 1)"
    by (simp add: rne_def Let_def f_def d_def)
  then show ?thesis
    using d unfolding r by (auto simp add: abs_if)
qed

lemma round64_error: "\<bar>round64 x - x\<bar> \<le> ulp64 x / 2"
proof (cases "x = 0")
  case True
  then show ?thesis
    using ulp64_pos [of x] by (simp add: round64_def)
next
  case False
  have "round64 x - x = (of_int (rne (x / ulp64 x)) - x / ulp64 x) * ulp64 x"
    using False ulp64_pos [of x] by (simp add: round64_def algebra_simps)
  then have "\<bar>round64 x - x\<bar> = \<bar>of_int (rne (x / ulp64 x)) - x / ulp64 x\<bar> * ulp64 x"
    using ulp64_pos [of x] by (simp add: abs_mult)
  also have "\<dots> \<le> 1 / 2 * ulp64 x"
    using rne_error [of "x / ulp64 x"] ulp64_pos [of x] by (intro mult_right_mono) simp_all
  finally show ?thesis
    by simp
qed

lemma ulp64_normal:
  assumes "pow2 (- 1022) \<le> \<bar>x\<bar>"
  shows "ulp64 x \<le> \<bar>x\<bar> / 2 ^ 52"
proof -
  have x: "x \<noteq> 0"
    using assms pow2_pos [of "- 1022"] by auto
  have "pow2 (expo64 x) \<le> \<bar>x\<bar>"
  proof (cases "- 1022 < expo64 x")
    case True
    with x show ?thesis by (rule pow2_expo_le_abs)
  next
    case False
    then have "expo64 x = - 1022"
      using expo64_ge [of x] by simp
    then show ?thesis
      using assms by simp
  qed
  moreover have "ulp64 x = pow2 (expo64 x) * pow2 (- 52)"
    unfolding ulp64_def by (simp add: pow2_add [symmetric])
  ultimately show ?thesis
    by (simp add: pow2_neg_numeral)
qed

lemma round64_rel_error:
  assumes "pow2 (- 1022) \<le> \<bar>x\<bar>"
  shows "\<bar>round64 x - x\<bar> \<le> \<bar>x\<bar> / 2 ^ 53"
  using round64_error [of x] ulp64_normal [OF assms] by simp

lemma round64_error_300:
  assumes "\<bar>x\<bar> \<le> 300"
  shows "\<bar>round64 x - x\<bar> \<le> 1 / 2 ^ 44"
proof (cases "pow2 (- 1022) \<le> \<bar>x\<bar>")
  case True
  then have "\<bar>round64 x - x\<bar> \<le> \<bar>x\<bar> / 2 ^ 53"
    by (rule round64_rel_error)
  also have "\<dots> \<le> 300 / 2 ^ 53"
    using assms by (simp add: divide_right_mono)
  also have "\<dots> \<le> 1 / 2 ^ 44"
    by simp
  finally show ?thesis .
next
  case False
  show ?thesis
  proof (cases "x = 0")
    case True
    then show ?thesis by (simp add: round64_0)
  next
    case x: False
    have "\<bar>x\<bar> < pow2 (- 1022 + 1)"
      using False pow2_le [of "- 1022" "- 1022 + 1"] by simp
    then have "expo64 x \<le> - 1022"
      using x by (intro expo64_le) simp_all
    then have "expo64 x = - 1022"
      using expo64_ge [of x] by simp
    then have "ulp64 x = pow2 (- 1074)"
      by (simp add: ulp64_def)
    also have "\<dots> \<le> pow2 (- 43)"
      by (simp add: pow2_le)
    finally have "ulp64 x / 2 \<le> 1 / 2 ^ 44"
      by (simp add: pow2_neg_numeral)
    then show ?thesis
      using round64_error [of x] by linarith
  qed
qed

lemma exp_near_1:
  fixes d :: real
  assumes "\<bar>d\<bar> \<le> 1"
  shows "\<bar>exp d - 1\<bar> \<le> 2 * \<bar>d\<bar>"
proof (cases "0 \<le> d")
  case True
  have "exp d \<le> 1 + d + d\<^sup>2"
    by (rule exp_bound) (use True assms in simp_all)
  moreover have "d\<^sup>2 \<le> d"
    using True assms by (simp add: power2_eq_square mult_left_le)
  moreover have "1 \<le> exp d"
    using True by simp
  ultimately show ?thesis
    using True by simp
next
  case False
  then have a: "exp d \<le> 1"
    by simp
  have b: "1 + d \<le> exp d"
    by (rule exp_ge_add_one_self)
  have "\<bar>exp d - 1\<bar> = 1 - exp d" "\<bar>d\<bar> = - d"
    using a False by simp_all
  then show ?thesis
    using b False by linarith
qed

lemma ln_10_le_4: "ln (10::real) \<le> 4"
proof -
  have "(2::real) \<le> exp 1"
    using exp_ge_add_one_self [of "1::real"] by simp
  then have "(2::real) ^ 4 \<le> exp 1 ^ 4"
    by (intro power_mono) simp_all
  also have "\<dots> = exp (4::real)"
    by (simp add: exp_of_nat_mult [symmetric])
  finally have "(10::real) \<le> exp 4"
    by simp
  then have "ln (10::real) \<le> ln (exp 4)"
    by (subst ln_le_cancel_iff) simp_all
  then show ?thesis
    by simp
qed

lemma round64_numeral_300: "round64 300 = 300" "round64 (- 300) = - 300"
  using round64_int [of 300] by (simp_all add: round64_minus)

lemma ten_pow_300_le: "(10::real) ^ 300 \<le> 2 ^ 1000"
proof -
  have "(10::real) ^ 300 = (10 ^ 3) ^ 100"
    by (simp only: power_mult [symmetric]) simp
  also have "\<dots> \<le> (2 ^ 10) ^ 100"
    by (rule power_mono) simp_all
  also have "\<dots> = 2 ^ 1000"
    by (simp only: power_mult [symmetric]) simp
  finally show ?thesis .
qed

lemma power_accuracy:
  assumes "\<bar>z\<bar> \<le> 3000"
  shows "\<bar>round64 (10 powr round64 (z / 10)) - 10 powr (z / 10)\<bar> \<le> 10 powr (z / 10) / 2 ^ 40"
    and "pow2 (- 1000) \<le> round64 (10 powr round64 (z / 10))"
    and "round64 (10 powr round64 (z / 10)) \<le> pow2 1000"
proof -
  define w where "w = round64 (z / 10)"
  define A :: real where "A = 10 powr (z / 10)"
  define A' :: real where "A' = 10 powr w"
  define a where "a = round64 A'"
  define d where "d = (w - z / 10) * ln 10"
  have z: "\<bar>z / 10\<bar> \<le> 300"
    using assms by simp
  have w: "- 300 \<le> w" "w \<le> 300"
    using z round64_mono [of "- 300" "z / 10"] round64_mono [of "z / 10" 300]
    by (simp_all add: w_def round64_numeral_300)
  have "\<bar>w - z / 10\<bar> \<le> 1 / 2 ^ 44"
    unfolding w_def using z by (rule round64_error_300)
  then have "\<bar>d\<bar> \<le> 1 / 2 ^ 44 * 4"
    unfolding d_def abs_mult using ln_10_le_4
    by (intro mult_mono) simp_all
  then have d: "\<bar>d\<bar> \<le> 1 / 2 ^ 42"
    by simp
  have Apos: "0 < A" "0 < A'"
    by (simp_all add: A_def A'_def)
  have "A' = exp (w * ln 10)"
    by (simp add: A'_def powr_def)
  also have "w * ln 10 = z / 10 * ln 10 + d"
    by (simp add: d_def algebra_simps)
  also have "exp (z / 10 * ln 10 + d) = A * exp d"
    by (simp add: exp_add A_def powr_def)
  finally have A': "A' = A * exp d" .
  have "\<bar>exp d - 1\<bar> \<le> 2 * \<bar>d\<bar>"
  proof (rule exp_near_1)
    have "(1::real) / 2 ^ 42 \<le> 1" by simp
    then show "\<bar>d\<bar> \<le> 1" using d by linarith
  qed
  then have e: "\<bar>exp d - 1\<bar> \<le> 1 / 2 ^ 41"
    using d by simp
  have "A' - A = A * (exp d - 1)"
    by (simp add: A' algebra_simps)
  then have "\<bar>A' - A\<bar> = A * \<bar>exp d - 1\<bar>"
    using Apos(1) by (simp add: abs_mult)
  also have "\<dots> \<le> A * (1 / 2 ^ 41)"
    using e Apos(1) by (intro mult_left_mono) simp_all
  finally have AA: "\<bar>A' - A\<bar> \<le> A / 2 ^ 41"
    by simp
  have up: "A' \<le> pow2 1000"
  proof -
    have "A' \<le> 10 powr 300"
      unfolding A'_def using w(2) by (intro powr_mono) simp_all
    also have "\<dots> = 10 ^ 300"
      by (rule powr_numeral) simp
    also have "\<dots> \<le> 2 ^ 1000"
      by (rule ten_pow_300_le)
    finally show ?thesis
      by (simp add: pow2_numeral)
  qed
  have lo: "pow2 (- 1000) \<le> A'"
  proof -
    have "pow2 (- 1000) = 1 / 2 ^ 1000"
      by (rule pow2_neg_numeral)
    also have "\<dots> \<le> 1 / 10 ^ 300"
      using ten_pow_300_le by (intro divide_left_mono) simp_all
    also have "\<dots> = 10 powr (- 300)"
      by (simp add: powr_minus_divide)
    also have "\<dots> \<le> A'"
      unfolding A'_def using w(1) by (intro powr_mono) simp_all
    finally show ?thesis .
  qed
  show "pow2 (- 1000) \<le> round64 (10 powr round64 (z / 10))"
    using lo unfolding A'_def w_def by (rule round64_ge_pow2) simp
  show "round64 (10 powr round64 (z / 10)) \<le> pow2 1000"
    using up unfolding A'_def w_def by (rule round64_le_pow2) simp
  have "pow2 (- 1022) \<le> pow2 (- 1000)"
    by (simp add: pow2_le)
  then have "pow2 (- 1022) \<le> \<bar>A'\<bar>"
    using lo by linarith
  then have "\<bar>a - A'\<bar> \<le> \<bar>A'\<bar> / 2 ^ 53"
    unfolding a_def by (rule round64_rel_error)
  then have aA': "\<bar>a - A'\<bar> \<le> A' / 2 ^ 53"
    using Apos(2) by simp
  have "A' \<le> A + A / 2 ^ 41"
    using AA by linarith
  also have "\<dots> \<le> 2 * A"
    using Apos(1) by simp
  finally have "A' / 2 ^ 53 \<le> 2 * A / 2 ^ 53"
    by (rule divide_right_mono) simp
  moreover have "2 * A / 2 ^ 53 = A / 2 ^ 52"
    by simp
  ultimately have "\<bar>a - A'\<bar> \<le> A / 2 ^ 52"
    using aA' by linarith
  then have "\<bar>a - A\<bar> \<le> A / 2 ^ 52 + A / 2 ^ 41"
    using AA by linarith
  also have "\<dots> \<le> A / 2 ^ 40"
    using Apos(1) by simp
  finally show "\<bar>round64 (10 powr round64 (z / 10)) - 10 powr (z / 10)\<bar>
      \<le> 10 powr (z / 10) / 2 ^ 40"
    by (simp add: a_def A'_def A_def w_def)
qed

lemma not_pow_overflows_3000:
  assumes "\<bar>z\<bar> \<le> 3000"
  shows "\<not> pow_overflows z"
proof -
  have "round64 (10 powr round64 (z / 10)) \<le> pow2 1000"
    using assms by (rule power_accuracy(3))
  also have "\<dots> < 2 ^ 1024"
    by (simp add: pow2_numeral)
  finally show ?thesis
    by (simp add: pow_overflows_def)
qed

lemma scaled_power_accuracy:
  assumes "\<bar>z\<bar> \<le> 3000" "c = 1 \<or> c = 2"
  shows "\<exists>v. fl (c * round64 (10 powr round64 (z / 10))) = Fin v
    \<and> \<bar>v - c * 10 powr (z / 10)\<bar> \<le> c * 10 powr (z / 10) / 2 ^ 39"
proof -
  define A :: real where "A = 10 powr (z / 10)"
  define a where "a = round64 (10 powr round64 (z / 10))"
  define v where "v = round64 (c * a)"
  have c: "1 \<le> c" "c \<le> 2"
    using assms(2) by auto
  have Apos: "0 < A"
    by (simp add: A_def)
  have aA: "\<bar>a - A\<bar> \<le> A / 2 ^ 40" and alo: "pow2 (- 1000) \<le> a" and ahi: "a \<le> pow2 1000"
    using power_accuracy [OF assms(1)] by (simp_all add: a_def A_def)
  have apos: "0 < a"
    using alo pow2_pos [of "- 1000"] by linarith
  have "c * a \<le> 2 * pow2 1000"
    using c ahi apos by (intro mult_mono) simp_all
  also have "\<dots> \<le> 2 ^ 1023"
    by (simp add: pow2_numeral)
  finally have "\<bar>c * a\<bar> \<le> 2 ^ 1023"
    using c apos by simp
  then have f: "fl (c * a) = Fin v"
    unfolding v_def by (rule fl_Fin)
  have "pow2 (- 1022) \<le> pow2 (- 1000)"
    by (simp add: pow2_le)
  also have "\<dots> \<le> 1 * a"
    using alo by simp
  also have "\<dots> \<le> c * a"
    using c apos by (intro mult_right_mono) simp_all
  finally have "pow2 (- 1022) \<le> \<bar>c * a\<bar>"
    using c apos by simp
  then have "\<bar>v - c * a\<bar> \<le> \<bar>c * a\<bar> / 2 ^ 53"
    unfolding v_def by (rule round64_rel_error)
  then have vca: "\<bar>v - c * a\<bar> \<le> c * a / 2 ^ 53"
    using c apos by simp
  have "a \<le> A + A / 2 ^ 40"
    using aA by linarith
  also have "\<dots> \<le> 2 * A"
    using Apos by simp
  finally have "c * a \<le> c * (2 * A)"
    using c by (intro mult_left_mono) simp_all
  then have "c * a / 2 ^ 53 \<le> c * (2 * A) / 2 ^ 53"
    by (rule divide_right_mono) simp
  moreover have "c * (2 * A) / 2 ^ 53 = c * A / 2 ^ 52"
    by simp
  ultimately have 1: "\<bar>v - c * a\<bar> \<le> c * A / 2 ^ 52"
    using vca by linarith
  have "\<bar>c * a - c * A\<bar> = c * \<bar>a - A\<bar>"
    using c by (simp add: abs_mult flip: right_diff_distrib)
  also have "\<dots> \<le> c * (A / 2 ^ 40)"
    using aA c by (intro mult_left_mono) simp_all
  finally have 2: "\<bar>c * a - c * A\<bar> \<le> c * A / 2 ^ 40"
    by simp
  have "\<bar>v - c * A\<bar> \<le> c * A / 2 ^ 52 + c * A / 2 ^ 40"
    using 1 2 by linarith
  also have "\<dots> \<le> c * A / 2 ^ 39"
    using c Apos by (simp add: field_simps)
  finally show ?thesis
    using f by (auto simp add: a_def A_def)
qed

text \<open>
  At an SNR of 6000 dB the evaluator returns no value: it raises \<^verbatim>\<open>OverflowError\<close>.
\<close>

theorem evaluator_raises_at_6000:
  "true_positive_rate_given_snr_and_threshold ncx2_cdf64 0 6000 True = Inl OverflowError"
proof -
  have "pow_overflows 6000"
    by (rule pow_overflows_ge_4000) simp
  then show ?thesis
    by (simp add: evaluator_structure)
qed

text \<open>
  C4 (as amended): the evaluator raises \<^verbatim>\<open>OverflowError\<close> when \<^verbatim>\<open>10**(thresholdDb/10)\<close>
  or \<^verbatim>\<open>10**(snrDb/10)\<close> is out of range. For thresholds and SNRs of absolute value at
  most 3000 dB it returns \<^verbatim>\<open>1.0 - c\<close>, where \<open>c\<close> is the value of scipy's distribution
  function with 2 degrees of freedom at a point within relative error \<open>2^-39\<close> of
  \<open>2 * 10^(thresholdDb/10)\<close> and a non-centrality within relative error \<open>2^-39\<close> of
  \<open>factor * 10^(snrDb/10)\<close>, with \<open>factor\<close> 1 for peak power and 2 for average power.
\<close>

theorem evaluator_follows_spec_algorithm:
  "(pow_overflows thresholdDb \<or> pow_overflows snrDb \<longrightarrow>
      true_positive_rate_given_snr_and_threshold cdf thresholdDb snrDb isPeakPower
        = Inl OverflowError)
   \<and> (\<bar>thresholdDb\<bar> \<le> 3000 \<and> \<bar>snrDb\<bar> \<le> 3000 \<longrightarrow>
      (\<exists>x lambda.
         true_positive_rate_given_snr_and_threshold cdf thresholdDb snrDb isPeakPower
           = Inr (np_sub (Fin 1) (cdf (Fin x) 2 (Fin lambda)))
         \<and> \<bar>x - 2 * 10 powr (thresholdDb / 10)\<bar> \<le> 2 * 10 powr (thresholdDb / 10) / 2 ^ 39
         \<and> \<bar>lambda - (if isPeakPower then 1 else 2) * 10 powr (snrDb / 10)\<bar>
             \<le> (if isPeakPower then 1 else 2) * 10 powr (snrDb / 10) / 2 ^ 39))"
proof (intro conjI impI)
  assume "pow_overflows thresholdDb \<or> pow_overflows snrDb"
  then show "true_positive_rate_given_snr_and_threshold cdf thresholdDb snrDb isPeakPower
      = Inl OverflowError"
    by (simp add: evaluator_structure)
next
  assume r: "\<bar>thresholdDb\<bar> \<le> 3000 \<and> \<bar>snrDb\<bar> \<le> 3000"
  define c :: real where "c = (if isPeakPower then 1 else 2)"
  have c: "c = 1 \<or> c = 2"
    by (simp add: c_def)
  obtain x where x: "evaluator_point thresholdDb = Fin x"
    "\<bar>x - 2 * 10 powr (thresholdDb / 10)\<bar> \<le> 2 * 10 powr (thresholdDb / 10) / 2 ^ 39"
    using scaled_power_accuracy [of thresholdDb 2] r by (auto simp add: evaluator_point_def)
  obtain l where l: "evaluator_noncentrality snrDb isPeakPower = Fin l"
    "\<bar>l - c * 10 powr (snrDb / 10)\<bar> \<le> c * 10 powr (snrDb / 10) / 2 ^ 39"
    using scaled_power_accuracy [of snrDb c] r c
    by (auto simp add: evaluator_noncentrality_def c_def)
  have "true_positive_rate_given_snr_and_threshold cdf thresholdDb snrDb isPeakPower
      = Inr (np_sub (Fin 1) (cdf (Fin x) 2 (Fin l)))"
    using r not_pow_overflows_3000 [of thresholdDb] not_pow_overflows_3000 [of snrDb]
    by (simp add: evaluator_structure x(1) l(1))
  then show "\<exists>x lambda.
      true_positive_rate_given_snr_and_threshold cdf thresholdDb snrDb isPeakPower
        = Inr (np_sub (Fin 1) (cdf (Fin x) 2 (Fin lambda)))
      \<and> \<bar>x - 2 * 10 powr (thresholdDb / 10)\<bar> \<le> 2 * 10 powr (thresholdDb / 10) / 2 ^ 39
      \<and> \<bar>lambda - (if isPeakPower then 1 else 2) * 10 powr (snrDb / 10)\<bar>
          \<le> (if isPeakPower then 1 else 2) * 10 powr (snrDb / 10) / 2 ^ 39"
    using x(2) l(2) unfolding c_def by blast
qed

theorem evaluator_follows_spec_algorithm_witness:
  "\<bar>0::real\<bar> \<le> 3000
   \<and> (\<exists>x lambda.
        true_positive_rate_given_snr_and_threshold ncx2_cdf64 0 0 False
          = Inr (np_sub (Fin 1) (ncx2_cdf64 (Fin x) 2 (Fin lambda)))
        \<and> \<bar>x - 2 * 10 powr (0 / 10)\<bar> \<le> 2 * 10 powr (0 / 10) / 2 ^ 39
        \<and> \<bar>lambda - 2 * 10 powr (0 / 10)\<bar> \<le> 2 * 10 powr (0 / 10) / 2 ^ 39)
   \<and> pow_overflows 4000
   \<and> true_positive_rate_given_snr_and_threshold ncx2_cdf64 0 4000 True = Inl OverflowError"
  using evaluator_follows_spec_algorithm [of 0 0 ncx2_cdf64 False]
    evaluator_follows_spec_algorithm [of 0 4000 ncx2_cdf64 True] pow_overflows_4000
  by simp

end
